theory Spec2Isabelle
  imports Complex_Main "HOL-Library.Sublist" "HOL-Library.AList" "HOL-Library.Multiset"
    "HOL-Library.Product_Lexorder"
begin

section \<open>Text: characters, case folding, trimming, substring test\<close>

text \<open>
  Source: \<^verbatim>\<open>src/py_backend/clara_task_processor.py\<close>.  A Python \<^verbatim>\<open>str\<close> is
  modelled as a \<^typ>\<open>string\<close>: a list of characters with code points below 256.
  On that range the functions below are Python's own: \<^verbatim>\<open>str.isspace\<close> (which is
  also what \<^verbatim>\<open>\s\<close> matches in a \<^verbatim>\<open>str\<close> pattern), the decimal digits
  of \<^verbatim>\<open>\d\<close>, and \<^verbatim>\<open>str.lower\<close>.
\<close>

definition isspace :: "char \<Rightarrow> bool" where
  "isspace c =
     (let n = (of_char c :: nat)
      in (9 \<le> n \<and> n \<le> 13) \<or> (28 \<le> n \<and> n \<le> 32) \<or> n = 133 \<or> n = 160)"

definition isdigit :: "char \<Rightarrow> bool" where
  "isdigit c = (let n = (of_char c :: nat) in 48 \<le> n \<and> n \<le> 57)"

definition lower_char :: "char \<Rightarrow> char" where
  "lower_char c =
     (let n = (of_char c :: nat)
      in if (65 \<le> n \<and> n \<le> 90) \<or> (192 \<le> n \<and> n \<le> 222 \<and> n \<noteq> 215)
         then char_of (n + 32) else c)"

text \<open>\<^verbatim>\<open>s.lower()\<close>\<close>

definition lower :: "string \<Rightarrow> string" where
  "lower s = map lower_char s"

text \<open>\<^verbatim>\<open>s.strip()\<close>: leading and trailing white space removed.\<close>

definition strip :: "string \<Rightarrow> string" where
  "strip s = rev (dropWhile isspace (rev (dropWhile isspace s)))"

text \<open>\<^verbatim>\<open>w in s\<close> on strings: \<open>w\<close> occurs in \<open>s\<close> as a contiguous piece.\<close>

fun contains :: "string \<Rightarrow> string \<Rightarrow> bool" where
  "contains w [] = (w = [])"
| "contains w (c # cs) = (prefix w (c # cs) \<or> contains w cs)"

text \<open>\<^verbatim>\<open>any(word in text for word in words)\<close>\<close>

definition any_word_in :: "string list \<Rightarrow> string \<Rightarrow> bool" where
  "any_word_in ws s = list_ex (\<lambda>w. contains w s) ws"

text \<open>\<^verbatim>\<open>str(n)\<close> for a length, and \<^verbatim>\<open>sep.join(lines)\<close>.\<close>

fun str_nat :: "nat \<Rightarrow> string" where
  "str_nat n =
     (if n < 10 then [char_of (48 + n)]
      else str_nat (n div 10) @ [char_of (48 + n mod 10)])"

fun join :: "string \<Rightarrow> string list \<Rightarrow> string" where
  "join sep [] = []"
| "join sep [x] = x"
| "join sep (x # y # ys) = x @ sep @ join sep (y # ys)"

section \<open>Regular expressions as the patterns use them\<close>

text \<open>
  The patterns of the parser use literal text, the classes \<^verbatim>\<open>.\<close> (any character
  but the newline), \<^verbatim>\<open>\s\<close> and \<^verbatim>\<open>\d\<close>, sequence, ordered alternation,
  the greedy \<^verbatim>\<open>?\<close>, and greedy \<^verbatim>\<open>*\<close> and \<^verbatim>\<open>+\<close> on a single class.
  \<open>Grp i r\<close> is the capturing group number \<open>i\<close>; a non-capturing group
  \<^verbatim>\<open>(?:...)\<close> is just its content.
\<close>

datatype cls = AnyC | SpaceC | DigitC

datatype regex =
    Lit string
  | One cls
  | Seq regex regex
  | Alt regex regex
  | Opt regex
  | Many cls
  | Many1 cls
  | Grp nat regex

fun in_cls :: "cls \<Rightarrow> char \<Rightarrow> bool" where
  "in_cls AnyC c = (c \<noteq> CHR 0x0A)"
| "in_cls SpaceC c = isspace c"
| "in_cls DigitC c = isdigit c"

text \<open>
  A matcher state is the input still to read and the groups captured so far.
  \<open>runs c s\<close> lists what is left of \<open>s\<close> after reading one or more characters of
  class \<open>c\<close>, the longest run first: the order in which a greedy quantifier tries.
\<close>

type_synonym mstate = "string \<times> (nat \<times> string) list"

fun runs :: "cls \<Rightarrow> string \<Rightarrow> string list" where
  "runs c [] = []"
| "runs c (x # xs) = (if in_cls c x then runs c xs @ [xs] else [])"

text \<open>
  \<open>rmatch r st\<close> lists every way \<open>r\<close> can match at the head of the input, in the
  order a backtracking matcher explores them (first alternative first, greedy
  quantifiers longest first).  The head of the list is the match the matcher
  commits to; the list is empty when \<open>r\<close> does not match here.
\<close>

fun rmatch :: "regex \<Rightarrow> mstate \<Rightarrow> mstate list" where
  "rmatch (Lit w) (s, g) = (if prefix w s then [(drop (length w) s, g)] else [])"
| "rmatch (One c) (s, g) =
     (case s of [] \<Rightarrow> [] | x # xs \<Rightarrow> if in_cls c x then [(xs, g)] else [])"
| "rmatch (Seq a b) st = concat (map (rmatch b) (rmatch a st))"
| "rmatch (Alt a b) st = rmatch a st @ rmatch b st"
| "rmatch (Opt a) st = rmatch a st @ [st]"
| "rmatch (Many c) (s, g) = map (\<lambda>r. (r, g)) (runs c s @ [s])"
| "rmatch (Many1 c) (s, g) = map (\<lambda>r. (r, g)) (runs c s)"
| "rmatch (Grp i a) (s, g) =
     map (\<lambda>(s', g'). (s', (i, take (length s - length s') s) # g')) (rmatch a (s, g))"

text \<open>The number of capturing groups of a pattern: \<^verbatim>\<open>len(match.groups())\<close>.\<close>

fun ngroups :: "regex \<Rightarrow> nat" where
  "ngroups (Seq a b) = ngroups a + ngroups b"
| "ngroups (Alt a b) = ngroups a + ngroups b"
| "ngroups (Opt a) = ngroups a"
| "ngroups (Grp i a) = Suc (ngroups a)"
| "ngroups r = 0"

text \<open>
  A match object: the whole matched text (\<^verbatim>\<open>group(0)\<close>) and the captured
  groups.  \<^verbatim>\<open>group(i)\<close> is \<open>None\<close> for a group that took no part in the match.
\<close>

datatype match = Match string "(nat \<times> string) list"

fun group0 :: "match \<Rightarrow> string" where
  "group0 (Match w g) = w"

fun group :: "match \<Rightarrow> nat \<Rightarrow> string option" where
  "group (Match w g) i = map_of g i"

text \<open>
  \<^verbatim>\<open>re.search(pattern, text)\<close>: the match at the leftmost position where the
  pattern matches, the end of the text included.
\<close>

fun search :: "regex \<Rightarrow> string \<Rightarrow> match option" where
  "search r [] =
     (case rmatch r ([], []) of [] \<Rightarrow> None | (s', g) # _ \<Rightarrow> Some (Match [] g))"
| "search r (c # cs) =
     (case rmatch r (c # cs, []) of
        [] \<Rightarrow> search r cs
      | (s', g) # _ \<Rightarrow> Some (Match (take (length (c # cs) - length s') (c # cs)) g))"

text \<open>
  \<open>captures i r\<close>: group \<open>i\<close> lies on every path through \<open>r\<close>, so it takes part
  in every match of \<open>r\<close>.
\<close>

fun captures :: "nat \<Rightarrow> regex \<Rightarrow> bool" where
  "captures i (Seq a b) = (captures i a \<or> captures i b)"
| "captures i (Alt a b) = (captures i a \<and> captures i b)"
| "captures i (Grp j a) = (i = j \<or> captures i a)"
| "captures i r = False"

fun seqs :: "regex list \<Rightarrow> regex" where
  "seqs [] = Lit []"
| "seqs [r] = r"
| "seqs (r # rs) = Seq r (seqs rs)"

fun alts :: "string list \<Rightarrow> regex" where
  "alts [] = Lit []"
| "alts [w] = Lit w"
| "alts (w # ws) = Alt (Lit w) (alts ws)"

abbreviation sp1 :: regex where
  "sp1 \<equiv> Many1 SpaceC"

abbreviation rest1 :: regex where
  "rest1 \<equiv> Grp 1 (Many1 AnyC)"


section \<open>Exceptions\<close>

text \<open>
  An exception of the source is a value; \<open>exn_str\<close> is Python's \<^verbatim>\<open>str(e)\<close>.
  \<open>StoreError\<close> stands for any exception of class \<^verbatim>\<open>Exception\<close> a task store may
  raise, with its text.  \<open>CancelledError\<close> (of \<^verbatim>\<open>asyncio\<close>), \<open>KeyboardInterrupt\<close>
  and \<open>SystemExit\<close> derive from \<^verbatim>\<open>BaseException\<close> only: a handler
  \<^verbatim>\<open>except Exception\<close> does not catch them.
  (\<^verbatim>\<open>str\<close> of a \<^verbatim>\<open>KeyError\<close> is the \<^verbatim>\<open>repr\<close> of the key, written here
  for keys that need no escaping.)
\<close>

datatype exn =
    AttributeError string
  | KeyError string
  | StoreError string
  | CancelledError
  | KeyboardInterrupt
  | SystemExit

fun exn_str :: "exn \<Rightarrow> string" where
  "exn_str (AttributeError m) = m"
| "exn_str (KeyError k) = [CHR 0x27] @ k @ [CHR 0x27]"
| "exn_str (StoreError m) = m"
| "exn_str CancelledError = []"
| "exn_str KeyboardInterrupt = []"
| "exn_str SystemExit = []"

text \<open>\<^verbatim>\<open>isinstance(e, Exception)\<close>\<close>

fun is_Exception :: "exn \<Rightarrow> bool" where
  "is_Exception (AttributeError m) = True"
| "is_Exception (KeyError k) = True"
| "is_Exception (StoreError m) = True"
| "is_Exception CancelledError = False"
| "is_Exception KeyboardInterrupt = False"
| "is_Exception SystemExit = False"

section \<open>VoiceCommandParser\<close>

record voice_command =
  action :: string
  entity :: string
  parameters :: "string \<rightharpoonup> string"
  confidence :: real
  raw_text :: string

text \<open>
  \<^verbatim>\<open>self.task_patterns\<close>: a dict from operation to its patterns; iteration is in
  insertion order, so it is a list of pairs.
\<close>

definition create_patterns :: "regex list" where
  "create_patterns =
    [ seqs [alts [''create'', ''add'', ''make'', ''new''], sp1, Opt (Seq (Lit ''a'') sp1),
            Lit ''task'', sp1, Opt (Seq (Lit ''to'') sp1), rest1],
      seqs [Opt (Seq (Lit ''i'') sp1),
            Alt (seqs [Lit ''need'', sp1, Lit ''to''])
              (Alt (seqs [Lit ''want'', sp1, Lit ''to'']) (seqs [Lit ''have'', sp1, Lit ''to''])),
            sp1, rest1],
      seqs [Opt (seqs [Lit ''remind'', sp1, Lit ''me'', sp1, Lit ''to'', sp1]), rest1],
      seqs [alts [''schedule'', ''plan''], sp1, Opt (Seq (Lit ''to'') sp1), rest1] ]"

definition complete_patterns :: "regex list" where
  "complete_patterns =
    [ seqs [alts [''complete'', ''finish'', ''done'', ''finished''], sp1,
            Opt (Seq (Lit ''task'') sp1), rest1],
      seqs [Opt (Seq (Lit ''mark'') sp1), rest1, sp1, Opt (Seq (Lit ''as'') sp1),
            alts [''complete'', ''done'', ''finished'']],
      seqs [Lit ''i'', Alt (Lit (CHR 0x27 # ''ve'')) (Seq sp1 (Lit ''have'')), sp1,
            alts [''completed'', ''finished'', ''done''], sp1, rest1] ]"

definition list_patterns :: "regex list" where
  "list_patterns =
    [ seqs [alts [''show'', ''list'', ''display'', ''get''], sp1, Opt (Seq (Lit ''my'') sp1),
            Lit ''task'', Opt (Lit ''s'')],
      seqs [Lit ''what'', sp1, Opt (seqs [Lit ''do'', sp1, Lit ''i'', sp1]),
            Opt (seqs [Lit ''need'', sp1, Lit ''to'', sp1]), alts [''do'', ''complete'']],
      seqs [Opt (seqs [Lit ''what'', sp1, Lit ''are'', sp1]), Lit ''my'', sp1,
            alts [''pending'', ''active'', ''current''], sp1, Lit ''task'', Opt (Lit ''s'')] ]"

definition delete_patterns :: "regex list" where
  "delete_patterns =
    [ seqs [alts [''delete'', ''remove'', ''cancel''], sp1, Opt (Seq (Lit ''task'') sp1), rest1],
      seqs [Alt (seqs [Lit ''get'', sp1, Lit ''rid'', sp1, Lit ''of'']) (Lit ''eliminate''),
            sp1, rest1] ]"

definition update_patterns :: "regex list" where
  "update_patterns =
    [ seqs [alts [''update'', ''modify'', ''change''], sp1, Opt (Seq (Lit ''task'') sp1), rest1],
      seqs [alts [''set'', ''make''], sp1, rest1, sp1, Opt (Seq (Lit ''to'') sp1),
            Grp 2 (Many1 AnyC)] ]"

definition task_patterns :: "(string \<times> regex list) list" where
  "task_patterns =
    [ (''create'', create_patterns), (''complete'', complete_patterns),
      (''list'', list_patterns), (''delete'', delete_patterns),
      (''update'', update_patterns) ]"

definition time_patterns :: "regex list" where
  "time_patterns =
    [ seqs [alts [''by'', ''before'', ''until''], sp1,
            Grp 1 (Alt (Lit ''tomorrow'')
                    (Alt (seqs [Lit ''next'', sp1, Lit ''week''])
                      (Alt (Lit ''friday'')
                        (seqs [Lit ''end'', sp1, Lit ''of'', sp1, Lit ''day'']))))],
      seqs [alts [''in'', ''within''], sp1, Grp 1 (Many1 DigitC), sp1,
            Grp 2 (Alt (Seq (Lit ''hour'') (Opt (Lit ''s'')))
                    (Alt (Seq (Lit ''day'') (Opt (Lit ''s'')))
                      (Alt (Seq (Lit ''week'') (Opt (Lit ''s'')))
                        (Seq (Lit ''month'') (Opt (Lit ''s''))))))],
      seqs [alts [''at'', ''on''], sp1,
            Grp 1 (seqs [One DigitC, Opt (One DigitC),
                         Opt (seqs [Lit '':'', One DigitC, One DigitC]),
                         Many SpaceC, Opt (alts [''am'', ''pm''])])] ]"

text \<open>
  The loop over \<^verbatim>\<open>self.time_patterns\<close> in \<^verbatim>\<open>_extract_parameters\<close>: every
  pattern is searched, in list order, and a match assigns
  \<^verbatim>\<open>parameters["time_reference"]\<close>; the loop has no \<^verbatim>\<open>break\<close>.
\<close>

fun extract_time :: "regex list \<Rightarrow> string \<Rightarrow> (string \<rightharpoonup> string) \<Rightarrow> (string \<rightharpoonup> string)" where
  "extract_time [] text params = params"
| "extract_time (p # ps) text params =
     (case search p text of
        Some m \<Rightarrow> extract_time ps text (params(''time_reference'' \<mapsto> group0 m))
      | None \<Rightarrow> extract_time ps text params)"

definition extract_priority :: "string \<Rightarrow> (string \<rightharpoonup> string) \<Rightarrow> (string \<rightharpoonup> string)" where
  "extract_priority text params =
     (if any_word_in [''urgent'', ''asap'', ''immediately'', ''high priority''] text
      then params(''priority'' \<mapsto> ''high'')
      else if any_word_in [''low'', ''whenever'', ''someday''] text
      then params(''priority'' \<mapsto> ''low'')
      else params(''priority'' \<mapsto> ''medium''))"

definition extract_context :: "string \<Rightarrow> (string \<rightharpoonup> string) \<Rightarrow> (string \<rightharpoonup> string)" where
  "extract_context text params =
     (if contains ''work'' text \<or> contains ''job'' text then params(''context'' \<mapsto> ''work'')
      else if contains ''personal'' text then params(''context'' \<mapsto> ''personal'')
      else params)"

text \<open>\<^verbatim>\<open>VoiceCommandParser._extract_parameters\<close>\<close>

definition extract_parameters :: "string \<Rightarrow> string \<Rightarrow> string \<Rightarrow> (string \<rightharpoonup> string)" where
  "extract_parameters text operation ent =
     extract_context text (extract_priority text (extract_time time_patterns text Map.empty))"

text \<open>
  The body of the inner loop of \<^verbatim>\<open>parse_command\<close> once a pattern has matched.
  \<^verbatim>\<open>match.group(1)\<close> is \<^verbatim>\<open>None\<close> for a group that took no part in the
  match, and \<^verbatim>\<open>None.strip()\<close> raises.
\<close>

definition none_has_no_strip :: string where
  "none_has_no_strip = [CHR 0x27] @ ''NoneType'' @ [CHR 0x27] @ '' object has no attribute ''
     @ [CHR 0x27] @ ''strip'' @ [CHR 0x27]"

definition on_match :: "string \<Rightarrow> string \<Rightarrow> regex \<Rightarrow> match \<Rightarrow> exn + voice_command" where
  "on_match text operation p m =
     (case (if ngroups p \<ge> 1 then group m 1 else Some []) of
        None \<Rightarrow> Inl (AttributeError none_has_no_strip)
      | Some e \<Rightarrow>
          (let ent = strip e;
               params = extract_parameters text operation ent
           in Inr \<lparr> action = operation, entity = ''task'',
                    parameters = [''operation'' \<mapsto> operation, ''description'' \<mapsto> ent] ++ params,
                    confidence = 1, raw_text = text \<rparr>))"

text \<open>The inner loop: \<open>None\<close> when no pattern of the operation matches.\<close>

fun try_patterns :: "string \<Rightarrow> string \<Rightarrow> regex list \<Rightarrow> (exn + voice_command) option" where
  "try_patterns text operation [] = None"
| "try_patterns text operation (p # ps) =
     (case search p text of
        Some m \<Rightarrow> Some (on_match text operation p m)
      | None \<Rightarrow> try_patterns text operation ps)"

text \<open>The outer loop over the operations.\<close>

fun try_operations :: "string \<Rightarrow> (string \<times> regex list) list \<Rightarrow> (exn + voice_command) option" where
  "try_operations text [] = None"
| "try_operations text ((operation, patterns) # rest) =
     (case try_patterns text operation patterns of
        Some r \<Rightarrow> Some r
      | None \<Rightarrow> try_operations text rest)"

text \<open>\<^verbatim>\<open>VoiceCommandParser.parse_command\<close>\<close>

definition parse_command :: "string \<Rightarrow> exn + voice_command" where
  "parse_command text0 =
     (let text = strip (lower text0); original_text = text
      in case try_operations text task_patterns of
           Some r \<Rightarrow> r
         | None \<Rightarrow>
             Inr \<lparr> action = ''unknown'', entity = ''unknown'',
                   parameters = [''raw_text'' \<mapsto> original_text],
                   confidence = 1, raw_text = original_text \<rparr>)"


section \<open>TaskManager\<close>

text \<open>
  A task is the dict built by \<^verbatim>\<open>create_task\<close>.  The key \<^verbatim>\<open>"id"\<close> is the field
  \<open>task_id\<close>; the key \<^verbatim>\<open>"completed_at"\<close>, which only \<^verbatim>\<open>complete_task\<close> adds, is
  \<open>None\<close> while it is absent.  Times (\<^verbatim>\<open>datetime.now()\<close>) are natural numbers.
\<close>

record task =
  task_id :: string
  description :: string
  priority :: string
  status :: string
  created_at :: nat
  due_date :: "nat option"
  voice_created :: bool
  completed_at :: "nat option"

text \<open>
  \<^verbatim>\<open>self.tasks_db\<close>: a dict, iterated in insertion order.  \<open>AList.update\<close> is
  \<^verbatim>\<open>d[k] = v\<close> (in place for a key already there, at the end for a new one) and
  \<open>AList.delete\<close> is \<^verbatim>\<open>del d[k]\<close> for a key that is there.
\<close>

type_synonym tasks_db = "(string \<times> task) list"

text \<open>
  \<^verbatim>\<open>TaskManager.create_task\<close>; \<open>uuid\<close> is the value of \<^verbatim>\<open>str(uuid.uuid4())\<close>
  and \<open>now\<close> that of \<^verbatim>\<open>datetime.now()\<close> in this call.
\<close>

definition create_task ::
  "string \<Rightarrow> nat \<Rightarrow> string \<Rightarrow> string \<Rightarrow> nat option \<Rightarrow> tasks_db \<Rightarrow> string \<times> tasks_db" where
  "create_task uuid now desc prio due db =
     (let t = \<lparr> task_id = uuid, description = desc, priority = prio, status = ''pending'',
                created_at = now, due_date = due, voice_created = True,
                completed_at = None \<rparr>
      in (''Task created: '' @ desc, AList.update uuid t db))"

text \<open>
  \<^verbatim>\<open>TaskManager._find_task\<close>.  The source returns the dict object held by the
  store, which the caller then mutates; the model returns it with the key it is
  stored under.
\<close>

definition find_task :: "string \<Rightarrow> tasks_db \<Rightarrow> (string \<times> task) option" where
  "find_task identifier db =
     (case map_of db identifier of
        Some t \<Rightarrow> Some (identifier, t)
      | None \<Rightarrow> List.find (\<lambda>(k, t). contains (lower identifier) (lower (description t))) db)"

text \<open>\<^verbatim>\<open>TaskManager.complete_task\<close>\<close>

definition complete_task :: "nat \<Rightarrow> string \<Rightarrow> tasks_db \<Rightarrow> string \<times> tasks_db" where
  "complete_task now task_identifier db =
     (case find_task task_identifier db of
        None \<Rightarrow> (''Task not found: '' @ task_identifier, db)
      | Some (k, t) \<Rightarrow>
          (''Marked as completed: '' @ description t,
           AList.update k (t\<lparr> status := ''completed'', completed_at := Some now \<rparr>) db))"

text \<open>
  \<^verbatim>\<open>TaskManager.delete_task\<close>; \<^verbatim>\<open>del self.tasks_db[task_id]\<close> raises
  \<^verbatim>\<open>KeyError\<close> for a key that is not there.
\<close>

definition delete_task :: "string \<Rightarrow> tasks_db \<Rightarrow> (exn + string) \<times> tasks_db" where
  "delete_task task_identifier db =
     (case find_task task_identifier db of
        None \<Rightarrow> (Inr (''Task not found: '' @ task_identifier), db)
      | Some (k, t) \<Rightarrow>
          (if task_id t \<in> fst ` set db
           then (Inr (''Deleted task: '' @ description t), AList.delete (task_id t) db)
           else (Inl (KeyError (task_id t)), db)))"

text \<open>\<^verbatim>\<open>priority_order.get(t["priority"], 1)\<close>\<close>

definition priority_order :: "string \<Rightarrow> nat" where
  "priority_order p =
     (if p = ''high'' then 0 else if p = ''medium'' then 1 else if p = ''low'' then 2 else 1)"

text \<open>
  \<^verbatim>\<open>tasks.sort(key=lambda t: (priority_order.get(...), t["created_at"]))\<close>: a stable
  sort on the pair, compared lexicographically.
\<close>

definition sort_tasks :: "task list \<Rightarrow> task list" where
  "sort_tasks ts = sort_key (\<lambda>t. (priority_order (priority t), created_at t)) ts"

text \<open>
  The two status icons lie outside the 8-bit range; they are written as the bytes of
  their UTF-8 encoding (U+2705 and U+23F3).
\<close>

definition icon_completed :: string where
  "icon_completed = [CHR 0xE2, CHR 0x9C, CHR 0x85]"

definition icon_pending :: string where
  "icon_pending = [CHR 0xE2, CHR 0x8F, CHR 0xB3]"

definition task_line :: "task \<Rightarrow> string" where
  "task_line t =
     (if status t = ''completed'' then icon_completed else icon_pending)
       @ '' '' @ description t @ '' ('' @ priority t @ '' priority)''"

text \<open>
  The first lines of \<^verbatim>\<open>list_tasks\<close>: the values of the store, filtered by status
  when a filter that is not empty is given.
\<close>

definition filtered_tasks :: "string option \<Rightarrow> tasks_db \<Rightarrow> task list" where
  "filtered_tasks status_filter db =
     (let tasks = map snd db
      in case status_filter of
           None \<Rightarrow> tasks
         | Some f \<Rightarrow> if f \<noteq> [] then filter (\<lambda>t. status t = f) tasks else tasks)"

text \<open>\<^verbatim>\<open>TaskManager.list_tasks\<close>\<close>

definition list_tasks :: "string option \<Rightarrow> tasks_db \<Rightarrow> string" where
  "list_tasks status_filter db =
     (let tasks = filtered_tasks status_filter db
      in if tasks = [] then ''No tasks found.''
         else (let tasks = sort_tasks tasks
               in ''You have '' @ str_nat (length tasks) @ '' tasks:'' @ [CHR 0x0A]
                    @ join [CHR 0x0A] (map task_line tasks)))"

text \<open>The tasks \<^verbatim>\<open>list_tasks\<close> lists, in the order it lists them.\<close>

definition listed_tasks :: "string option \<Rightarrow> tasks_db \<Rightarrow> task list" where
  "listed_tasks status_filter db = sort_tasks (filtered_tasks status_filter db)"

text \<open>
  A sequence of calls on a \<^verbatim>\<open>TaskManager\<close>, each with the values it draws from
  the clock and the id generator, and the store it leaves behind.
\<close>

datatype call =
    CreateTask string nat string string "nat option"
  | CompleteTask nat string
  | ListTasks "string option"
  | DeleteTask string

fun apply_call :: "call \<Rightarrow> tasks_db \<Rightarrow> tasks_db" where
  "apply_call (CreateTask uuid now desc prio due) db = snd (create_task uuid now desc prio due db)"
| "apply_call (CompleteTask now ident) db = snd (complete_task now ident db)"
| "apply_call (ListTasks f) db = db"
| "apply_call (DeleteTask ident) db = snd (delete_task ident db)"

fun run_calls :: "call list \<Rightarrow> tasks_db \<Rightarrow> tasks_db" where
  "run_calls [] db = db"
| "run_calls (c # cs) db = run_calls cs (apply_call c db)"

text \<open>The invariant of the data model: completed-at is set exactly on completed tasks.\<close>

definition completed_at_iff_completed :: "tasks_db \<Rightarrow> bool" where
  "completed_at_iff_completed db =
     list_all (\<lambda>(k, t). (completed_at t \<noteq> None) = (status t = ''completed'')) db"

section \<open>ClaraTaskProcessor\<close>

text \<open>
  \<^verbatim>\<open>self.task_manager\<close> is any object with the four methods the processor calls.
  A method takes the store's state and returns the state it leaves, with either its
  response or the exception it raised.
\<close>

record 's task_manager =
  tm_create_task :: "string \<Rightarrow> string \<Rightarrow> 's \<Rightarrow> (exn + string) \<times> 's"
  tm_complete_task :: "string \<Rightarrow> 's \<Rightarrow> (exn + string) \<times> 's"
  tm_list_tasks :: "'s \<Rightarrow> (exn + string) \<times> 's"
  tm_delete_task :: "string \<Rightarrow> 's \<Rightarrow> (exn + string) \<times> 's"

text \<open>
  The \<^verbatim>\<open>TaskManager\<close> of the source, for one command: \<open>uuid\<close> and \<open>now\<close> are what
  the id generator and the clock return during it.
\<close>

definition in_memory :: "string \<Rightarrow> nat \<Rightarrow> tasks_db task_manager" where
  "in_memory uuid now =
     \<lparr> tm_create_task = (\<lambda>desc prio db.
          case create_task uuid now desc prio None db of (r, db') \<Rightarrow> (Inr r, db')),
       tm_complete_task = (\<lambda>ident db.
          case complete_task now ident db of (r, db') \<Rightarrow> (Inr r, db')),
       tm_list_tasks = (\<lambda>db. (Inr (list_tasks None db), db)),
       tm_delete_task = delete_task \<rparr>"

definition need_details :: string where
  "need_details = ''I need more details about what task you'' @ [CHR 0x27]
                    @ ''d like me to create or manage.''"

definition updates_unimplemented :: string where
  "updates_unimplemented = ''Task updates aren'' @ [CHR 0x27]
     @ ''t implemented yet. I can create, complete, list, and delete tasks.''"

text \<open>\<^verbatim>\<open>ClaraTaskProcessor._process_task_command\<close>\<close>

definition process_task_command ::
  "'s task_manager \<Rightarrow> voice_command \<Rightarrow> 's \<Rightarrow> (exn + string) \<times> 's" where
  "process_task_command tm command st =
     (let operation = parameters command ''operation'';
          desc = (case parameters command ''description'' of Some d \<Rightarrow> d | None \<Rightarrow> [])
      in if desc = [] then (Inr need_details, st)
         else if operation = Some ''create'' then
           (let prio = (case parameters command ''priority'' of Some p \<Rightarrow> p | None \<Rightarrow> ''medium'')
            in tm_create_task tm desc prio st)
         else if operation = Some ''complete'' then tm_complete_task tm desc st
         else if operation = Some ''list'' then tm_list_tasks tm st
         else if operation = Some ''delete'' then tm_delete_task tm desc st
         else if operation = Some ''update'' then (Inr updates_unimplemented, st)
         else (Inr (''Unknown task operation: ''
                     @ (case operation of Some op \<Rightarrow> op | None \<Rightarrow> ''None'')), st))"

definition guidance_tasks :: string where
  "guidance_tasks = ''I can help you manage tasks. Try saying '' @ [CHR 0x27]
     @ ''create a task to [description]'' @ [CHR 0x27] @ '' or '' @ [CHR 0x27]
     @ ''show my tasks'' @ [CHR 0x27] @ ''.''"

definition guidance_files :: string where
  "guidance_files = ''I can help with file operations. Try saying '' @ [CHR 0x27]
     @ ''open [filename]'' @ [CHR 0x27] @ '' or '' @ [CHR 0x27] @ ''read [document]''
     @ [CHR 0x27] @ ''.''"

definition guidance_web :: string where
  "guidance_web = ''I can help with web browsing. Try saying '' @ [CHR 0x27]
     @ ''open [website]'' @ [CHR 0x27] @ '' or '' @ [CHR 0x27] @ ''search for [topic]''
     @ [CHR 0x27] @ ''.''"

definition guidance_generic :: string where
  "guidance_generic = ''I'' @ [CHR 0x27] @ ''m not sure what you'' @ [CHR 0x27]
     @ ''d like me to do. I can help with tasks, files, browsing, and applications. ''
     @ ''Try being more specific!''"

text \<open>\<^verbatim>\<open>ClaraTaskProcessor._handle_unknown_command\<close>\<close>

definition handle_unknown_command :: "string \<Rightarrow> string" where
  "handle_unknown_command command_text =
     (if any_word_in [''task'', ''todo'', ''remind''] (lower command_text) then guidance_tasks
      else if any_word_in [''file'', ''document'', ''open'', ''read''] (lower command_text)
      then guidance_files
      else if any_word_in [''browser'', ''web'', ''search'', ''google''] (lower command_text)
      then guidance_web
      else guidance_generic)"

text \<open>
  The body of the \<^verbatim>\<open>try\<close> block of \<^verbatim>\<open>process_voice_command\<close>: an exception
  raised in it is the \<open>Inl\<close> result.
\<close>

definition try_process :: "'s task_manager \<Rightarrow> string \<Rightarrow> 's \<Rightarrow> (exn + string) \<times> 's" where
  "try_process tm command_text st =
     (case parse_command command_text of
        Inl e \<Rightarrow> (Inl e, st)
      | Inr command \<Rightarrow>
          if action command = ''unknown'' then (Inr (handle_unknown_command command_text), st)
          else if entity command = ''task'' then process_task_command tm command st
          else (Inr (''I understand you want to '' @ action command @ '' '' @ entity command
                      @ '', but that feature isn'' @ [CHR 0x27] @ ''t fully implemented yet.''), st))"

definition apology :: "exn \<Rightarrow> string" where
  "apology e = ''Sorry, I encountered an error processing your request: '' @ exn_str e"

text \<open>
  \<^verbatim>\<open>ClaraTaskProcessor.process_voice_command\<close>: the \<^verbatim>\<open>try\<close> block and its
  \<^verbatim>\<open>except Exception\<close> handler.  The handler turns an exception of class
  \<^verbatim>\<open>Exception\<close> into the apology; any other exception leaves the function, which
  is the \<open>Inl\<close> result.
\<close>

definition process_voice_command ::
  "'s task_manager \<Rightarrow> string \<Rightarrow> 's \<Rightarrow> (exn + string) \<times> 's" where
  "process_voice_command tm command_text st =
     (case try_process tm command_text st of
        (Inr response, st') \<Rightarrow> (Inr response, st')
      | (Inl e, st') \<Rightarrow> if is_Exception e then (Inr (apology e), st') else (Inl e, st'))"

text \<open>
  Two task managers to run the processor against: one whose every method raises a
  given exception, and one whose state is the number of calls made to it.
\<close>

definition raising_store :: "exn \<Rightarrow> nat task_manager" where
  "raising_store e =
     \<lparr> tm_create_task = (\<lambda>d p s. (Inl e, s)),
       tm_complete_task = (\<lambda>d s. (Inl e, s)),
       tm_list_tasks = (\<lambda>s. (Inl e, s)),
       tm_delete_task = (\<lambda>d s. (Inl e, s)) \<rparr>"


text \<open>A task manager whose methods raise nothing outside class \<^verbatim>\<open>Exception\<close>.\<close>

definition raises_only_Exception :: "'s task_manager \<Rightarrow> bool" where
  "raises_only_Exception tm =
     ((\<forall>d p s e s'. tm_create_task tm d p s = (Inl e, s') \<longrightarrow> is_Exception e)
    \<and> (\<forall>d s e s'. tm_complete_task tm d s = (Inl e, s') \<longrightarrow> is_Exception e)
    \<and> (\<forall>s e s'. tm_list_tasks tm s = (Inl e, s') \<longrightarrow> is_Exception e)
    \<and> (\<forall>d s e s'. tm_delete_task tm d s = (Inl e, s') \<longrightarrow> is_Exception e))"

section \<open>Substrings\<close>

lemma contains_iff: "contains w s \<longleftrightarrow> (\<exists>pre suf. s = pre @ w @ suf)"
proof (induction s)
  case Nil
  then show ?case by auto
next
  case (Cons c cs)
  show ?case
  proof
    assume "contains w (c # cs)"
    then consider "prefix w (c # cs)" | "contains w cs" by auto
    then show "\<exists>pre suf. c # cs = pre @ w @ suf"
    proof cases
      case 1
      then obtain suf where "c # cs = w @ suf" by (auto simp: prefix_def)
      then have "c # cs = [] @ w @ suf" by simp
      then show ?thesis by blast
    next
      case 2
      with Cons.IH obtain pre suf where "cs = pre @ w @ suf" by blast
      then have "c # cs = (c # pre) @ w @ suf" by simp
      then show ?thesis by blast
    qed
  next
    assume "\<exists>pre suf. c # cs = pre @ w @ suf"
    then obtain pre suf where e: "c # cs = pre @ w @ suf" by blast
    show "contains w (c # cs)"
    proof (cases pre)
      case Nil
      with e have "prefix w (c # cs)" by (simp add: prefix_def)
      then show ?thesis by simp
    next
      case (Cons x xs)
      with e have "cs = xs @ w @ suf" by simp
      with Cons.IH have "contains w cs" by blast
      then show ?thesis by simp
    qed
  qed
qed

section \<open>The matcher: groups that always take part\<close>

lemma rmatch_caps_mono:
  "(s', g') \<in> set (rmatch r (s, g)) \<Longrightarrow> set g \<subseteq> set g'"
proof (induction r arbitrary: s g s' g')
  case (Seq a b)
  from Seq.prems obtain s1 g1 where
    m1: "(s1, g1) \<in> set (rmatch a (s, g))" and m2: "(s', g') \<in> set (rmatch b (s1, g1))"
    by auto
  from Seq.IH(1)[OF m1] Seq.IH(2)[OF m2] show ?case by blast
next
  case (Alt a b)
  from Alt.prems have "(s', g') \<in> set (rmatch a (s, g)) \<or> (s', g') \<in> set (rmatch b (s, g))"
    by simp
  with Alt.IH show ?case by blast
next
  case (Opt a)
  from Opt.prems have "(s', g') \<in> set (rmatch a (s, g)) \<or> (s', g') = (s, g)"
    by auto
  with Opt.IH show ?case by blast
next
  case (Grp i a)
  from Grp.prems obtain g1 where
    m1: "(s', g1) \<in> set (rmatch a (s, g))" and g': "g' = (i, take (length s - length s') s) # g1"
    by auto
  from Grp.IH[OF m1] g' show ?case by auto
qed (auto split: if_splits list.splits)

lemma rmatch_captures:
  "captures i r \<Longrightarrow> (s', g') \<in> set (rmatch r (s, g)) \<Longrightarrow> i \<in> fst ` set g'"
proof (induction r arbitrary: s g s' g')
  case (Seq a b)
  from Seq.prems(2) obtain s1 g1 where
    m1: "(s1, g1) \<in> set (rmatch a (s, g))" and m2: "(s', g') \<in> set (rmatch b (s1, g1))"
    by auto
  show ?case
  proof (cases "captures i a")
    case True
    with Seq.IH(1) m1 have "i \<in> fst ` set g1" by blast
    with rmatch_caps_mono[OF m2] show ?thesis by auto
  next
    case False
    with Seq.prems(1) have "captures i b" by simp
    with Seq.IH(2) m2 show ?thesis by blast
  qed
next
  case (Alt a b)
  from Alt.prems(2) have "(s', g') \<in> set (rmatch a (s, g)) \<or> (s', g') \<in> set (rmatch b (s, g))"
    by simp
  with Alt.IH Alt.prems(1) show ?case by auto
next
  case (Grp j a)
  from Grp.prems(2) obtain g1 where
    m1: "(s', g1) \<in> set (rmatch a (s, g))" and g': "g' = (j, take (length s - length s') s) # g1"
    by auto
  show ?case
  proof (cases "i = j")
    case True
    with g' show ?thesis by simp
  next
    case False
    with Grp.prems(1) have "captures i a" by simp
    from Grp.IH[OF this m1] g' show ?thesis by auto
  qed
qed auto

lemma search_captures:
  "captures i r \<Longrightarrow> search r s = Some m \<Longrightarrow> group m i \<noteq> None"
proof (induction s)
  case Nil
  then obtain s' g where "rmatch r ([], []) = (s', g) # tl (rmatch r ([], []))" and m: "m = Match [] g"
    by (auto split: list.splits)
  then have "(s', g) \<in> set (rmatch r ([], []))" by (metis list.set_intros(1))
  with Nil.prems(1) have "i \<in> fst ` set g" by (rule rmatch_captures)
  then show ?case using m by (simp add: map_of_eq_None_iff)
next
  case (Cons c cs)
  show ?case
  proof (cases "rmatch r (c # cs, [])")
    case Nil
    with Cons show ?thesis by simp
  next
    case (Cons x xs)
    obtain s' g where x: "x = (s', g)" by (cases x)
    with Cons Cons.prems(2) have m: "m = Match (take (length (c # cs) - length s') (c # cs)) g"
      by simp
    from Cons x have "(s', g) \<in> set (rmatch r (c # cs, []))" by simp
    with Cons.prems(1) have "i \<in> fst ` set g" by (rule rmatch_captures)
    then show ?thesis using m by (simp add: map_of_eq_None_iff)
  qed
qed

section \<open>The parser: which operation wins\<close>

lemma strip_prefix: "dropWhile isspace s = strip s @ rev (takeWhile isspace (rev (dropWhile isspace s)))"
proof -
  let ?d = "dropWhile isspace s"
  have "rev (rev ?d) = rev (takeWhile isspace (rev ?d) @ dropWhile isspace (rev ?d))"
    by (simp only: takeWhile_dropWhile_id)
  then show ?thesis by (simp only: strip_def rev_rev_ident rev_append)
qed

lemma strip_hd: 
  assumes "strip s \<noteq> []" shows "\<not> isspace (hd (strip s))"
proof -
  let ?d = "dropWhile isspace s"
  from assms have dne: "?d \<noteq> []" by (auto simp: strip_def simp del: dropWhile_eq_Nil_conv)
  then have h: "\<not> isspace (hd ?d)" by (rule hd_dropWhile)
  have "hd ?d = hd (strip s)" using assms by (subst strip_prefix) simp
  with h show ?thesis by simp
qed

lemma newline_isspace: "isspace (CHR 0x0A)"
  by (simp add: isspace_def)

lemma rest1_matches:
  "c \<noteq> CHR 0x0A \<Longrightarrow> rmatch rest1 (c # cs, g) \<noteq> []"
  by simp

lemma create3_matches:
  assumes "c \<noteq> CHR 0x0A"
  shows "search (create_patterns ! 2) (c # cs) \<noteq> None"
proof -
  have "rmatch (create_patterns ! 2) (c # cs, []) \<noteq> []"
    using assms by (simp add: create_patterns_def)
  then show ?thesis by (auto split: list.splits)
qed

lemma try_patterns_Some:
  "try_patterns text operation ps = Some r \<Longrightarrow>
     \<exists>p m. p \<in> set ps \<and> search p text = Some m \<and> r = on_match text operation p m"
  by (induction ps) (auto split: option.splits)

lemma try_patterns_None:
  "try_patterns text operation ps = None \<longleftrightarrow> (\<forall>p \<in> set ps. search p text = None)"
  by (induction ps) (auto split: option.splits)

lemma on_match_captures:
  "captures 1 p \<Longrightarrow> search p text = Some m \<Longrightarrow>
     \<exists>cmd. on_match text operation p m = Inr cmd \<and> action cmd = operation \<and> entity cmd = ''task''"
  using search_captures[of "1" p "text" m]
  by (auto simp: on_match_def Let_def split: option.splits)

lemma create_patterns_capture: "p \<in> set create_patterns \<Longrightarrow> captures 1 p"
  by (auto simp: create_patterns_def)

lemma create_wins:
  assumes "text \<noteq> []" and "\<not> isspace (hd text)"
  shows "\<exists>cmd. try_operations text task_patterns = Some (Inr cmd) \<and> action cmd = ''create''"
proof -
  obtain c cs where t: "text = c # cs" using assms(1) by (cases "text") auto
  with assms(2) newline_isspace have "c \<noteq> CHR 0x0A" by auto
  then have "search (create_patterns ! 2) text \<noteq> None" unfolding t by (rule create3_matches)
  moreover have "create_patterns ! 2 \<in> set create_patterns" by (simp add: create_patterns_def)
  ultimately have "try_patterns text ''create'' create_patterns \<noteq> None"
    by (auto simp: try_patterns_None)
  then obtain r where r: "try_patterns text ''create'' create_patterns = Some r" by auto
  from try_patterns_Some[OF this] obtain p m where
    "p \<in> set create_patterns" "search p text = Some m" "r = on_match text ''create'' p m" by blast
  with on_match_captures[of p "text" m "''create''"] create_patterns_capture[of p]
  obtain cmd where "r = Inr cmd" "action cmd = ''create''" by auto
  with r show ?thesis by (simp add: task_patterns_def)
qed

lemma nothing_matches_empty: "try_operations [] task_patterns = None"
  by (simp add: task_patterns_def create_patterns_def complete_patterns_def list_patterns_def
      delete_patterns_def update_patterns_def)


text \<open>
  C2.  Whenever the lower-cased, trimmed input is not empty, \<open>parse_command\<close> returns a
  command with action \<open>create\<close>: the third pattern of \<open>create\<close>, an optional prefix
  followed by \<^verbatim>\<open>(.+)\<close>, matches any such text, and \<open>create\<close> is tried before the
  other operations.  \<open>parse_command\<close> always returns a command, and its action is
  \<open>unknown\<close> exactly when the trimmed input is empty.
\<close>

theorem parse_command_create_iff:
  "(strip (lower text) \<noteq> [] \<longrightarrow>
      search (create_patterns ! 2) (strip (lower text)) \<noteq> None
      \<and> (\<exists>cmd. parse_command text = Inr cmd \<and> action cmd = ''create''))
   \<and> (\<exists>cmd. parse_command text = Inr cmd \<and> (action cmd = ''unknown'' \<longleftrightarrow> strip (lower text) = []))"
proof (cases "strip (lower text) = []")
  case True
  then show ?thesis by (simp add: parse_command_def Let_def nothing_matches_empty)
next
  case False
  from create_wins[OF False strip_hd[OF False]] obtain cmd where
    c: "try_operations (strip (lower text)) task_patterns = Some (Inr cmd)" "action cmd = ''create''"
    by blast
  from False obtain x xs where t: "strip (lower text) = x # xs"
    by (cases "strip (lower text)") auto
  with strip_hd[OF False] newline_isspace have "x \<noteq> CHR 0x0A" by auto
  then have "search (create_patterns ! 2) (x # xs) \<noteq> None" by (rule create3_matches)
  with t have "search (create_patterns ! 2) (strip (lower text)) \<noteq> None" by simp
  with c False show ?thesis by (simp add: parse_command_def Let_def)
qed

theorem parse_command_create_iff_witness:
  "strip (lower ''Show my Tasks'') \<noteq> []
   \<and> (\<exists>cmd. parse_command ''Show my Tasks'' = Inr cmd \<and> action cmd = ''create'')"
proof -
  have ne: "strip (lower ''Show my Tasks'') \<noteq> []" by code_simp
  from parse_command_create_iff[of "''Show my Tasks''"] ne show ?thesis by blast
qed

section \<open>Parameter extraction\<close>

lemma extract_time_other:
  "k \<noteq> ''time_reference'' \<Longrightarrow> extract_time ps tx params k = params k"
  by (induction ps arbitrary: params) (auto split: option.splits)

lemma extract_priority_eq:
  "extract_priority tx params ''priority'' =
     Some (if any_word_in [''urgent'', ''asap'', ''immediately'', ''high priority''] tx then ''high''
           else if any_word_in [''low'', ''whenever'', ''someday''] tx then ''low''
           else ''medium'')"
  by (simp add: extract_priority_def)

lemma extract_priority_other:
  "k \<noteq> ''priority'' \<Longrightarrow> extract_priority tx params k = params k"
  by (simp add: extract_priority_def)

lemma extract_context_other:
  "k \<noteq> ''context'' \<Longrightarrow> extract_context tx params k = params k"
  by (simp add: extract_context_def)

lemma extract_parameters_priority:
  "extract_parameters tx operation ent ''priority'' =
     Some (if any_word_in [''urgent'', ''asap'', ''immediately'', ''high priority''] tx then ''high''
           else if any_word_in [''low'', ''whenever'', ''someday''] tx then ''low''
           else ''medium'')"
  unfolding extract_parameters_def
  by (simp add: extract_context_other extract_priority_eq)


lemma extract_parameters_time:
  "extract_parameters tx operation ent ''time_reference'' =
     extract_time time_patterns tx Map.empty ''time_reference''"
  unfolding extract_parameters_def
  by (simp add: extract_context_other extract_priority_other)

lemma on_match_parameters:
  assumes "on_match tx operation p m = Inr cmd"
    and "k \<noteq> ''operation''" and "k \<noteq> ''description''"
  shows "parameters cmd k = extract_parameters tx operation ent k"
proof -
  from assms(1) obtain e where
    "cmd = \<lparr> action = operation, entity = ''task'',
             parameters = [''operation'' \<mapsto> operation, ''description'' \<mapsto> strip e]
                            ++ extract_parameters tx operation (strip e),
             confidence = 1, raw_text = tx \<rparr>"
    by (auto simp: on_match_def Let_def split: option.splits if_splits)
  then have "parameters cmd k =
      ([''operation'' \<mapsto> operation, ''description'' \<mapsto> strip e]
          ++ extract_parameters tx operation (strip e)) k" by simp
  also have "\<dots> = extract_parameters tx operation (strip e) k"
    using assms(2,3) by (simp add: map_add_def split: option.splits)
  also have "\<dots> = extract_parameters tx operation ent k"
    by (simp add: extract_parameters_def)
  finally show ?thesis .
qed

lemma try_operations_Some:
  "try_operations tx ops = Some r \<Longrightarrow>
     \<exists>operation ps p m. (operation, ps) \<in> set ops \<and> p \<in> set ps \<and> search p tx = Some m
        \<and> r = on_match tx operation p m"
proof (induction ops)
  case Nil
  then show ?case by simp
next
  case (Cons a ops)
  obtain operation ps where a: "a = (operation, ps)" by (cases a)
  show ?case
  proof (cases "try_patterns tx operation ps")
    case None
    with Cons a show ?thesis by auto
  next
    case (Some r')
    with Cons.prems a have "r' = r" by simp
    with Some try_patterns_Some[of tx operation ps r'] a show ?thesis by auto
  qed
qed

lemma try_operations_None:
  "try_operations tx ops = None \<longleftrightarrow> (\<forall>(operation, ps) \<in> set ops. \<forall>p \<in> set ps. search p tx = None)"
  by (induction ops) (auto simp: try_patterns_None split: option.splits)

lemma parse_command_known:
  assumes "parse_command text0 = Inr cmd" and "action cmd \<noteq> ''unknown''"
  shows "\<exists>operation p m. on_match (strip (lower text0)) operation p m = Inr cmd"
proof (cases "try_operations (strip (lower text0)) task_patterns")
  case None
  with assms show ?thesis by (auto simp: parse_command_def Let_def)
next
  case (Some r)
  with assms(1) have "r = Inr cmd" by (simp add: parse_command_def Let_def)
  with try_operations_Some[OF Some] show ?thesis by metis
qed

text \<open>
  C5.  Whenever \<open>parse_command\<close> recognises an operation, the priority it records is
  \<open>high\<close> if the normalised text contains one of \<open>urgent\<close>, \<open>asap\<close>,
  \<open>immediately\<close>, \<open>high priority\<close>; otherwise \<open>low\<close> if it contains one of
  \<open>low\<close>, \<open>whenever\<close>, \<open>someday\<close>; otherwise \<open>medium\<close>.  The high words are
  checked first, and \<open>urgent\<close> anywhere in the text gives \<open>high\<close> whatever the
  operation.
\<close>

theorem priority_extraction:
  assumes "parse_command text0 = Inr cmd" and "action cmd \<noteq> ''unknown''"
  shows "parameters cmd ''priority'' =
           Some (if any_word_in [''urgent'', ''asap'', ''immediately'', ''high priority'']
                      (strip (lower text0)) then ''high''
                 else if any_word_in [''low'', ''whenever'', ''someday''] (strip (lower text0))
                 then ''low''
                 else ''medium'')
         \<and> (contains ''urgent'' (strip (lower text0)) \<longrightarrow> parameters cmd ''priority'' = Some ''high'')"
proof -
  from parse_command_known[OF assms] obtain operation p m where
    "on_match (strip (lower text0)) operation p m = Inr cmd" by blast
  from on_match_parameters[OF this, of "''priority''" "[]"]
  have "parameters cmd ''priority'' = extract_parameters (strip (lower text0)) operation [] ''priority''"
    by simp
  then show ?thesis by (simp add: extract_parameters_priority any_word_in_def)
qed

theorem priority_extraction_witness:
  "parameters (projr (parse_command ''Someday fix the URGENT low battery alarm'')) ''priority''
     = Some ''high''"
proof -
  let ?cmd = "projr (parse_command ''Someday fix the URGENT low battery alarm'')"
  have "\<not> isl (parse_command ''Someday fix the URGENT low battery alarm'')" by code_simp
  then have c: "parse_command ''Someday fix the URGENT low battery alarm'' = Inr ?cmd" by simp
  have k: "action ?cmd \<noteq> ''unknown''" by code_simp
  have u: "contains ''urgent'' (strip (lower ''Someday fix the URGENT low battery alarm''))"
    by code_simp
  from priority_extraction[OF c k] u show ?thesis by blast
qed

lemma find_app: "List.find P (xs @ ys) = (case List.find P xs of None \<Rightarrow> List.find P ys | Some x \<Rightarrow> Some x)"
  by (induction xs) auto

lemma extract_time_last:
  "extract_time ps tx params ''time_reference'' =
     (case List.find (\<lambda>p. search p tx \<noteq> None) (rev ps) of
        None \<Rightarrow> params ''time_reference''
      | Some p \<Rightarrow> map_option group0 (search p tx))"
proof (induction ps arbitrary: params)
  case Nil
  then show ?case by simp
next
  case (Cons p ps)
  show ?case
  proof (cases "search p tx")
    case None
    then show ?thesis using Cons.IH[of params]
      by (simp add: find_app split: option.splits)
  next
    case (Some m)
    have "extract_time (p # ps) tx params ''time_reference'' =
            extract_time ps tx (params(''time_reference'' \<mapsto> group0 m)) ''time_reference''"
      using Some by simp
    also have "\<dots> = (case List.find (\<lambda>p. search p tx \<noteq> None) (rev ps) of
                        None \<Rightarrow> (params(''time_reference'' \<mapsto> group0 m)) ''time_reference''
                      | Some p \<Rightarrow> map_option group0 (search p tx))"
      by (rule Cons.IH)
    also have "\<dots> = (case List.find (\<lambda>p. search p tx \<noteq> None) (rev (p # ps)) of
                        None \<Rightarrow> params ''time_reference''
                      | Some p \<Rightarrow> map_option group0 (search p tx))"
      using Some by (simp add: find_app split: option.splits)
    finally show ?thesis .
  qed
qed

text \<open>
  C4, as the code has it.  The loop over the temporal patterns has no \<^verbatim>\<open>break\<close>:
  every pattern that matches assigns the time reference, so the one recorded is the
  full matched text (\<^verbatim>\<open>group(0)\<close>, at the leftmost place the pattern matches) of
  the last pattern in list order that matches; no time reference is recorded when no
  pattern matches, and never more than one.
\<close>

theorem time_reference_last_match:
  "extract_parameters tx operation ent ''time_reference'' =
     (case List.find (\<lambda>p. search p tx \<noteq> None) (rev time_patterns) of
        None \<Rightarrow> None
      | Some p \<Rightarrow> map_option group0 (search p tx))"
  by (simp only: extract_parameters_time extract_time_last)

theorem time_reference_last_match_witness:
  "extract_parameters ''call bob in 2 days at 5pm'' ''create'' ''x'' ''time_reference''
     = Some ''at 5pm''"
proof -
  have "(case List.find (\<lambda>p. search p ''call bob in 2 days at 5pm'' \<noteq> None) (rev time_patterns) of
        None \<Rightarrow> None
      | Some p \<Rightarrow> map_option group0 (search p ''call bob in 2 days at 5pm'')) = Some ''at 5pm''"
    by code_simp
  with time_reference_last_match[of "''call bob in 2 days at 5pm''" "''create''" "''x''"]
  show ?thesis by simp
qed

text \<open>
  C4 as stated fails: in \<open>call bob by tomorrow at 5pm\<close> the first temporal pattern
  matches \<open>by tomorrow\<close>, and the time reference recorded is \<open>at 5pm\<close>, the match of
  the third.
\<close>

theorem time_reference_first_match_counterexample:
  "map_option group0 (search (time_patterns ! 0) (strip (lower ''Call Bob by tomorrow at 5pm'')))
     = Some ''by tomorrow''
   \<and> \<not> isl (parse_command ''Call Bob by tomorrow at 5pm'')
   \<and> parameters (projr (parse_command ''Call Bob by tomorrow at 5pm'')) ''time_reference''
       = Some ''at 5pm''"
  by code_simp

section \<open>TaskManager: the completed-at invariant\<close>

lemma inv_update:
  "completed_at_iff_completed db \<Longrightarrow> (completed_at t \<noteq> None) = (status t = ''completed'')
     \<Longrightarrow> completed_at_iff_completed (AList.update k t db)"
  by (induction db) (auto simp: completed_at_iff_completed_def)

lemma inv_delete:
  "completed_at_iff_completed db \<Longrightarrow> completed_at_iff_completed (AList.delete k db)"
  by (induction db) (auto simp: completed_at_iff_completed_def)

lemma inv_create_task:
  "completed_at_iff_completed db \<Longrightarrow>
     completed_at_iff_completed (snd (create_task uuid now desc prio due db))"
  by (simp add: create_task_def inv_update)

lemma inv_complete_task:
  "completed_at_iff_completed db \<Longrightarrow> completed_at_iff_completed (snd (complete_task now ident db))"
  by (auto simp: complete_task_def inv_update split: option.splits)

lemma inv_delete_task:
  "completed_at_iff_completed db \<Longrightarrow> completed_at_iff_completed (snd (delete_task ident db))"
  by (auto simp: delete_task_def inv_delete split: option.splits)

lemma inv_apply_call:
  "completed_at_iff_completed db \<Longrightarrow> completed_at_iff_completed (apply_call c db)"
  by (cases c) (simp_all add: inv_create_task inv_complete_task inv_delete_task)

lemma inv_run_calls:
  "completed_at_iff_completed db \<Longrightarrow> completed_at_iff_completed (run_calls cs db)"
  by (induction cs arbitrary: db) (simp_all add: inv_apply_call)

text \<open>
  C10.  In every store reached from the empty one by any sequence of \<open>create_task\<close>,
  \<open>complete_task\<close>, \<open>list_tasks\<close> and \<open>delete_task\<close> calls, a task has its
  completed-at field set if and only if its status is \<open>completed\<close>.
\<close>

theorem completed_at_invariant:
  "completed_at_iff_completed (run_calls cs [])"
  by (rule inv_run_calls) (simp add: completed_at_iff_completed_def)

theorem completed_at_invariant_witness:
  "completed_at_iff_completed
     (run_calls [CreateTask ''id1'' 10 ''buy milk'' ''high'' None,
                 CreateTask ''id2'' 11 ''call bob'' ''low'' None,
                 CompleteTask 12 ''milk'', ListTasks None, DeleteTask ''bob''] [])
   \<and> map (\<lambda>(k, t). (k, status t, completed_at t))
       (run_calls [CreateTask ''id1'' 10 ''buy milk'' ''high'' None,
                 CreateTask ''id2'' 11 ''call bob'' ''low'' None,
                 CompleteTask 12 ''milk'', ListTasks None, DeleteTask ''bob''] [])
      = [(''id1'', ''completed'', Some 12)]"
proof -
  have "map (\<lambda>(k, t). (k, status t, completed_at t))
       (run_calls [CreateTask ''id1'' 10 ''buy milk'' ''high'' None,
                 CreateTask ''id2'' 11 ''call bob'' ''low'' None,
                 CompleteTask 12 ''milk'', ListTasks None, DeleteTask ''bob''] [])
      = [(''id1'', ''completed'', Some 12)]" by code_simp
  with completed_at_invariant[of "[CreateTask ''id1'' 10 ''buy milk'' ''high'' None,
                 CreateTask ''id2'' 11 ''call bob'' ''low'' None,
                 CompleteTask 12 ''milk'', ListTasks None, DeleteTask ''bob'']"]
  show ?thesis by blast
qed

section \<open>TaskManager: looking a task up\<close>

lemma find_task_exact:
  "map_of db ident = Some t \<Longrightarrow> find_task ident db = Some (ident, t)"
  by (simp add: find_task_def)

lemma find_task_fallback:
  assumes "ident \<notin> fst ` set db"
  shows "find_task ident db =
           List.find (\<lambda>(k, t). contains (lower ident) (lower (description t))) db"
proof -
  from assms have "map_of db ident = None" by (simp add: map_of_eq_None_iff)
  then show ?thesis by (simp add: find_task_def)
qed

lemma find_first_index:
  "List.find P xs = Some x \<Longrightarrow>
     \<exists>i<length xs. xs ! i = x \<and> P x \<and> (\<forall>j<i. \<not> P (xs ! j))"
proof (induction xs)
  case Nil
  then show ?case by simp
next
  case (Cons a xs)
  show ?case
  proof (cases "P a")
    case True
    with Cons.prems have "a = x" by simp
    with True have "0 < length (a # xs) \<and> (a # xs) ! 0 = x \<and> P x \<and> (\<forall>j<0. \<not> P ((a # xs) ! j))"
      by simp
    then show ?thesis by (rule exI[of _ 0])
  next
    case False
    with Cons.prems have "List.find P xs = Some x" by simp
    from Cons.IH[OF this] obtain i where
      i: "i < length xs" "xs ! i = x" "P x" "\<forall>j<i. \<not> P (xs ! j)" by blast
    have "\<forall>j<Suc i. \<not> P ((a # xs) ! j)"
    proof (intro allI impI)
      fix j assume "j < Suc i"
      with False i(4) show "\<not> P ((a # xs) ! j)" by (cases j) simp_all
    qed
    with i(1-3) have "Suc i < length (a # xs) \<and> (a # xs) ! Suc i = x \<and> P x
        \<and> (\<forall>j<Suc i. \<not> P ((a # xs) ! j))" by simp
    then show ?thesis by (rule exI[of _ "Suc i"])
  qed
qed

lemma find_task_first:
  assumes "find_task ident db = Some (k, t)" and "ident \<notin> fst ` set db"
  shows "\<exists>i < length db. db ! i = (k, t)
            \<and> contains (lower ident) (lower (description t))
            \<and> (\<forall>j < i. \<not> contains (lower ident) (lower (description (snd (db ! j)))))"
proof -
  let ?P = "\<lambda>kt. contains (lower ident) (lower (description (snd kt)))"
  have eq: "(\<lambda>(k, t). contains (lower ident) (lower (description t))) = ?P"
    by (rule ext) (simp only: case_prod_unfold)
  have "find_task ident db = List.find ?P db"
    using find_task_fallback[OF assms(2)] by (simp only: eq)
  with assms(1) have "List.find ?P db = Some (k, t)" by (simp only:)
  from find_first_index[OF this] show ?thesis by simp
qed

lemma find_task_none:
  assumes "ident \<notin> fst ` set db"
    and "\<forall>t \<in> snd ` set db. \<not> contains (lower ident) (lower (description t))"
  shows "find_task ident db = None"
proof -
  let ?P = "\<lambda>(k, t). contains (lower ident) (lower (description t))"
  have "\<not> ?P x" if "x \<in> set db" for x
  proof -
    obtain k t where x: "x = (k, t)" by (cases x)
    with that have "t \<in> snd ` set db" by force
    with assms(2) have "\<not> contains (lower ident) (lower (description t))" by (rule bspec)
    with x show ?thesis by simp
  qed
  then have "List.find ?P db = None" unfolding find_None_iff by blast
  with assms(1) show ?thesis by (simp add: find_task_fallback)
qed

lemma not_found_responses:
  assumes "find_task ident db = None"
  shows "complete_task now ident db = (''Task not found: '' @ ident, db)"
    and "delete_task ident db = (Inr (''Task not found: '' @ ident), db)"
  using assms by (simp_all add: complete_task_def delete_task_def)

text \<open>
  C7.  \<open>find_task\<close> returns the task stored under the identifier when the identifier is
  a key of the store.  Otherwise it returns the first task, in the store's iteration
  order, whose description contains the identifier, both lower-cased.  When neither
  succeeds it returns no task, and \<open>complete_task\<close> and \<open>delete_task\<close> answer with
  the not-found response and leave the store as it is.
\<close>

theorem find_task_policy:
  "(\<forall>t. map_of db ident = Some t \<longrightarrow> find_task ident db = Some (ident, t))
   \<and> (ident \<notin> fst ` set db \<longrightarrow>
        find_task ident db =
          List.find (\<lambda>(k, t). contains (lower ident) (lower (description t))) db)
   \<and> (\<forall>k t. find_task ident db = Some (k, t) \<and> ident \<notin> fst ` set db \<longrightarrow>
        (\<exists>i < length db. db ! i = (k, t)
            \<and> contains (lower ident) (lower (description t))
            \<and> (\<forall>j < i. \<not> contains (lower ident) (lower (description (snd (db ! j)))))))
   \<and> (ident \<notin> fst ` set db
        \<and> (\<forall>t \<in> snd ` set db. \<not> contains (lower ident) (lower (description t)))
        \<longrightarrow> find_task ident db = None
            \<and> complete_task now ident db = (''Task not found: '' @ ident, db)
            \<and> delete_task ident db = (Inr (''Task not found: '' @ ident), db))"
proof (intro conjI allI impI)
  fix t assume "map_of db ident = Some t"
  then show "find_task ident db = Some (ident, t)" by (rule find_task_exact)
next
  assume "ident \<notin> fst ` set db"
  then show "find_task ident db =
          List.find (\<lambda>(k, t). contains (lower ident) (lower (description t))) db"
    by (rule find_task_fallback)
next
  fix k t assume "find_task ident db = Some (k, t) \<and> ident \<notin> fst ` set db"
  then show "\<exists>i < length db. db ! i = (k, t)
            \<and> contains (lower ident) (lower (description t))
            \<and> (\<forall>j < i. \<not> contains (lower ident) (lower (description (snd (db ! j)))))"
    by (intro find_task_first) simp_all
next
  assume a: "ident \<notin> fst ` set db
        \<and> (\<forall>t \<in> snd ` set db. \<not> contains (lower ident) (lower (description t)))"
  then have n: "find_task ident db = None" by (intro find_task_none) simp_all
  show "find_task ident db = None" by (rule n)
  from not_found_responses[OF n] show "complete_task now ident db = (''Task not found: '' @ ident, db)"
    and "delete_task ident db = (Inr (''Task not found: '' @ ident), db)" by this+
qed

theorem find_task_policy_witness:
  "find_task ''id2''
     [(''id1'', \<lparr>task_id = ''id1'', description = ''Buy Milk'', priority = ''high'',
                status = ''pending'', created_at = 1, due_date = None, voice_created = True,
                completed_at = None\<rparr>),
      (''id2'', \<lparr>task_id = ''id2'', description = ''milk the cow'', priority = ''low'',
                status = ''pending'', created_at = 2, due_date = None, voice_created = True,
                completed_at = None\<rparr>)]
    = Some (''id2'', \<lparr>task_id = ''id2'', description = ''milk the cow'', priority = ''low'',
                status = ''pending'', created_at = 2, due_date = None, voice_created = True,
                completed_at = None\<rparr>)
   \<and> find_task ''MILK''
     [(''id1'', \<lparr>task_id = ''id1'', description = ''Buy Milk'', priority = ''high'',
                status = ''pending'', created_at = 1, due_date = None, voice_created = True,
                completed_at = None\<rparr>),
      (''id2'', \<lparr>task_id = ''id2'', description = ''milk the cow'', priority = ''low'',
                status = ''pending'', created_at = 2, due_date = None, voice_created = True,
                completed_at = None\<rparr>)]
    = Some (''id1'', \<lparr>task_id = ''id1'', description = ''Buy Milk'', priority = ''high'',
                status = ''pending'', created_at = 1, due_date = None, voice_created = True,
                completed_at = None\<rparr>)
   \<and> complete_task 7 ''eggs''
     [(''id1'', \<lparr>task_id = ''id1'', description = ''Buy Milk'', priority = ''high'',
                status = ''pending'', created_at = 1, due_date = None, voice_created = True,
                completed_at = None\<rparr>)]
    = (''Task not found: eggs'',
     [(''id1'', \<lparr>task_id = ''id1'', description = ''Buy Milk'', priority = ''high'',
                status = ''pending'', created_at = 1, due_date = None, voice_created = True,
                completed_at = None\<rparr>)])"
proof -
  let ?t1 = "\<lparr>task_id = ''id1'', description = ''Buy Milk'', priority = ''high'',
                status = ''pending'', created_at = 1, due_date = None, voice_created = True,
                completed_at = None\<rparr>"
  let ?t2 = "\<lparr>task_id = ''id2'', description = ''milk the cow'', priority = ''low'',
                status = ''pending'', created_at = 2, due_date = None, voice_created = True,
                completed_at = None\<rparr>"
  have k: "map_of [(''id1'', ?t1), (''id2'', ?t2)] ''id2'' = Some ?t2" by simp
  have a: "find_task ''id2'' [(''id1'', ?t1), (''id2'', ?t2)] = Some (''id2'', ?t2)"
    using find_task_policy[of "[(''id1'', ?t1), (''id2'', ?t2)]" "''id2''" 0] k by blast
  have nk: "''MILK'' \<notin> fst ` set [(''id1'', ?t1), (''id2'', ?t2)]" by simp
  have f: "List.find (\<lambda>(k, t). contains (lower ''MILK'') (lower (description t)))
             [(''id1'', ?t1), (''id2'', ?t2)] = Some (''id1'', ?t1)"
    by code_simp
  have b: "find_task ''MILK'' [(''id1'', ?t1), (''id2'', ?t2)] = Some (''id1'', ?t1)"
    using find_task_policy[of "[(''id1'', ?t1), (''id2'', ?t2)]" "''MILK''" 0] nk f by simp
  have ne: "''eggs'' \<notin> fst ` set [(''id1'', ?t1)]" by simp
  have nm: "\<forall>t \<in> snd ` set [(''id1'', ?t1)]. \<not> contains (lower ''eggs'') (lower (description t))"
    by code_simp
  have c: "complete_task 7 ''eggs'' [(''id1'', ?t1)] = (''Task not found: '' @ ''eggs'', [(''id1'', ?t1)])"
    using find_task_policy[of "[(''id1'', ?t1)]" "''eggs''" 7] ne nm by blast
  from a b c show ?thesis by simp
qed

section \<open>TaskManager: listing\<close>

lemma sort_tasks_sorted:
  "sorted_wrt (\<lambda>a b. priority_order (priority a) < priority_order (priority b)
        \<or> (priority_order (priority a) = priority_order (priority b) \<and> created_at a \<le> created_at b))
     (sort_tasks ts)"
proof -
  let ?key = "\<lambda>t. (priority_order (priority t), created_at t)"
  have "sorted (map ?key (sort_key ?key ts))" by (rule sorted_sort_key)
  then have "sorted_wrt (\<lambda>a b. ?key a \<le> ?key b) (sort_key ?key ts)"
    by (simp only: sorted_map)
  then show ?thesis
    unfolding sort_tasks_def
    by (rule sorted_wrt_mono_rel[rotated]) (auto simp: less_eq_prod_def)
qed

lemma sort_tasks_mset: "mset (sort_tasks ts) = mset ts"
  by (simp add: sort_tasks_def)

lemma sort_tasks_stable:
  "filter (\<lambda>t. (priority_order (priority t), created_at t) = k) (sort_tasks ts)
     = filter (\<lambda>t. (priority_order (priority t), created_at t) = k) ts"
  unfolding sort_tasks_def by (rule sort_key_stable)

lemma listed_tasks_None: "listed_tasks None db = sort_tasks (map snd db)"
  by (simp add: listed_tasks_def filtered_tasks_def)

lemma sort_tasks_Nil_iff: "sort_tasks ts = [] \<longleftrightarrow> ts = []"
proof -
  have "length (sort_tasks ts) = length ts" by (simp add: sort_tasks_def)
  then show ?thesis by (metis length_0_conv)
qed

lemma list_tasks_empty: "list_tasks f [] = ''No tasks found.''"
  by (cases f) (simp_all add: list_tasks_def filtered_tasks_def)

lemma priority_ranks:
  "priority_order ''high'' = 0" "priority_order ''medium'' = 1" "priority_order ''low'' = 2"
  by (simp_all add: priority_order_def)

lemma sort_example:
  assumes "priority a = ''high''" "priority b = ''low''" "priority c = ''high''"
    and "created_at c < created_at a"
  shows "sort_tasks [a, b, c] = [c, a, b]"
  using assms by (simp add: sort_tasks_def priority_ranks less_eq_prod_def)


lemma list_tasks_nonempty:
  assumes "db \<noteq> []"
  shows "list_tasks None db =
           ''You have '' @ str_nat (length db) @ '' tasks:'' @ [CHR 0x0A]
             @ join [CHR 0x0A] (map task_line (listed_tasks None db))"
proof -
  have f: "filtered_tasks None db = map snd db" by (simp add: filtered_tasks_def)
  have "length (sort_tasks (map snd db)) = length db" by (simp add: sort_tasks_def)
  with assms f show ?thesis by (simp add: list_tasks_def listed_tasks_def Let_def)
qed

text \<open>
  C6.  \<open>list_tasks\<close> on an empty store returns exactly \<open>No tasks found.\<close>  On a
  store that is not empty it lists every task once, ordered by priority first, \<open>high\<close>
  before \<open>medium\<close> before \<open>low\<close>, and by creation time, ascending, among tasks of
  equal priority: a store holding A (high, created later), B (low) and C (high, created
  earlier) is listed C, A, B.
\<close>

theorem list_tasks_order:
  "list_tasks f [] = ''No tasks found.''
   \<and> (db \<noteq> [] \<longrightarrow>
        list_tasks None db =
          ''You have '' @ str_nat (length db) @ '' tasks:'' @ [CHR 0x0A]
            @ join [CHR 0x0A] (map task_line (listed_tasks None db)))
   \<and> mset (listed_tasks None db) = mset (map snd db)
   \<and> sorted_wrt (\<lambda>a b. priority_order (priority a) < priority_order (priority b)
          \<or> (priority_order (priority a) = priority_order (priority b)
               \<and> created_at a \<le> created_at b))
        (listed_tasks None db)
   \<and> priority_order ''high'' < priority_order ''medium''
   \<and> priority_order ''medium'' < priority_order ''low''
   \<and> (priority a = ''high'' \<and> priority b = ''low'' \<and> priority c = ''high''
        \<and> created_at c < created_at a
        \<longrightarrow> listed_tasks None [(ka, a), (kb, b), (kc, c)] = [c, a, b])"
proof (intro conjI impI)
  show "list_tasks f [] = ''No tasks found.''" by (rule list_tasks_empty)
next
  assume "db \<noteq> []"
  then show "list_tasks None db =
          ''You have '' @ str_nat (length db) @ '' tasks:'' @ [CHR 0x0A]
            @ join [CHR 0x0A] (map task_line (listed_tasks None db))"
    by (rule list_tasks_nonempty)
next
  show "mset (listed_tasks None db) = mset (map snd db)"
    by (simp only: listed_tasks_None sort_tasks_mset)
next
  show "sorted_wrt (\<lambda>a b. priority_order (priority a) < priority_order (priority b)
          \<or> (priority_order (priority a) = priority_order (priority b)
               \<and> created_at a \<le> created_at b))
        (listed_tasks None db)"
    by (simp only: listed_tasks_None sort_tasks_sorted)
next
  show "priority_order ''high'' < priority_order ''medium''" by (simp add: priority_ranks)
next
  show "priority_order ''medium'' < priority_order ''low''" by (simp add: priority_ranks)
next
  assume "priority a = ''high'' \<and> priority b = ''low'' \<and> priority c = ''high''
        \<and> created_at c < created_at a"
  then have "sort_tasks [a, b, c] = [c, a, b]" by (intro sort_example) simp_all
  then show "listed_tasks None [(ka, a), (kb, b), (kc, c)] = [c, a, b]"
    by (simp add: listed_tasks_None)
qed

theorem list_tasks_order_witness:
  "list_tasks None
     (run_calls [CreateTask ''a'' 1 ''A'' ''high'' None, CreateTask ''b'' 2 ''B'' ''low'' None,
                 CreateTask ''c'' 0 ''C'' ''high'' None] [])
   = ''You have 3 tasks:'' @ [CHR 0x0A]
       @ icon_pending @ '' C (high priority)'' @ [CHR 0x0A]
       @ icon_pending @ '' A (high priority)'' @ [CHR 0x0A]
       @ icon_pending @ '' B (low priority)''"
proof -
  let ?db = "run_calls [CreateTask ''a'' 1 ''A'' ''high'' None, CreateTask ''b'' 2 ''B'' ''low'' None,
                 CreateTask ''c'' 0 ''C'' ''high'' None] []"
  have ne: "?db \<noteq> []" by code_simp
  have r: "''You have '' @ str_nat (length ?db) @ '' tasks:'' @ [CHR 0x0A]
            @ join [CHR 0x0A] (map task_line (listed_tasks None ?db))
          = ''You have 3 tasks:'' @ [CHR 0x0A]
       @ icon_pending @ '' C (high priority)'' @ [CHR 0x0A]
       @ icon_pending @ '' A (high priority)'' @ [CHR 0x0A]
       @ icon_pending @ '' B (low priority)''"
    by code_simp
  from list_tasks_order[of None ?db] ne have
    "list_tasks None ?db = ''You have '' @ str_nat (length ?db) @ '' tasks:'' @ [CHR 0x0A]
            @ join [CHR 0x0A] (map task_line (listed_tasks None ?db))"
    by blast
  with r show ?thesis by (simp only:)
qed

section \<open>TaskManager: create, complete, list, delete\<close>

lemma contains_refl: "contains w w"
proof -
  have "w = [] @ w @ []" by simp
  then show ?thesis unfolding contains_iff by blast
qed

lemma update_fresh:
  "k \<notin> fst ` set db \<Longrightarrow> AList.update k v db = db @ [(k, v)]"
  by (induction db) auto

lemma update_last:
  "k \<notin> fst ` set db \<Longrightarrow> AList.update k v' (db @ [(k, v)]) = db @ [(k, v')]"
  by (induction db) auto

lemma delete_last:
  "k \<notin> fst ` set db \<Longrightarrow> AList.delete k (db @ [(k, v)]) = db"
  by (induction db) (auto simp: AList.delete_eq)

lemma find_task_last:
  assumes "ident \<notin> fst ` set db"
    and "\<forall>t \<in> snd ` set db. \<not> contains (lower ident) (lower (description t))"
    and "description t = ident"
  shows "find_task ident (db @ [(k, t)]) = Some (k, t)"
proof (cases "ident = k")
  case True
  from assms(1) have "map_of db ident = None" by (simp add: map_of_eq_None_iff)
  with True have "map_of (db @ [(k, t)]) ident = Some t" by (simp add: map_add_def)
  then have "find_task ident (db @ [(k, t)]) = Some (ident, t)" by (rule find_task_exact)
  with True show ?thesis by simp
next
  case False
  let ?P = "\<lambda>(k, t). contains (lower ident) (lower (description t))"
  from assms(1) have "map_of db ident = None" by (simp add: map_of_eq_None_iff)
  with False have n: "map_of (db @ [(k, t)]) ident = None" by (simp add: map_add_def)
  have "find_task ident db = None" using assms(1,2) by (rule find_task_none)
  with assms(1) have "List.find ?P db = None" by (simp add: find_task_fallback)
  moreover have "?P (k, t)" using assms(3) by (simp add: contains_refl)
  ultimately have f: "List.find ?P (db @ [(k, t)]) = Some (k, t)" by (simp add: find_app)
  show ?thesis unfolding find_task_def by (simp only: n f option.case)
qed


text \<open>
  C8, as the code has it.  Take a store in which the fresh id is not a key, the
  description is not a key, and no task's description contains the new description
  (case-insensitively); the empty store is one.  Then \<open>create_task\<close> with a description
  and a priority, followed by \<open>complete_task\<close> with the description, leaves that task
  in the store with status \<open>completed\<close>, and \<open>list_tasks\<close> shows it with the
  completed icon.  \<open>delete_task\<close> with the description then gives back the store as it
  was before, in which no listed task has that description, and a further
  \<open>complete_task\<close> returns the not-found response.
\<close>

theorem create_complete_delete_round_trip:
  assumes "uuid \<notin> fst ` set db"
    and "desc \<notin> fst ` set db"
    and "\<forall>t \<in> snd ` set db. \<not> contains (lower desc) (lower (description t))"
  shows "\<exists>db1 db2 t.
           create_task uuid now desc prio due db = (''Task created: '' @ desc, db1)
         \<and> complete_task now2 desc db1 = (''Marked as completed: '' @ desc, db2)
         \<and> map_of db2 uuid = Some t
         \<and> description t = desc \<and> priority t = prio \<and> status t = ''completed''
         \<and> t \<in> set (listed_tasks None db2)
         \<and> task_line t = icon_completed @ '' '' @ desc @ '' ('' @ prio @ '' priority)''
         \<and> list_tasks None db2 =
              ''You have '' @ str_nat (length db2) @ '' tasks:'' @ [CHR 0x0A]
                @ join [CHR 0x0A] (map task_line (listed_tasks None db2))
         \<and> delete_task desc db2 = (Inr (''Deleted task: '' @ desc), db)
         \<and> uuid \<notin> fst ` set db
         \<and> (\<forall>t' \<in> set (listed_tasks None db). description t' \<noteq> desc)
         \<and> complete_task now3 desc db = (''Task not found: '' @ desc, db)"
proof -
  let ?new = "\<lparr> task_id = uuid, description = desc, priority = prio, status = ''pending'',
                created_at = now, due_date = due, voice_created = True,
                completed_at = None \<rparr>"
  let ?fin = "?new\<lparr> status := ''completed'', completed_at := Some now2 \<rparr>"
  let ?dba = "db @ [(uuid, ?new)]"
  let ?dbb = "db @ [(uuid, ?fin)]"
  have c1: "create_task uuid now desc prio due db = (''Task created: '' @ desc, ?dba)"
    unfolding create_task_def Let_def by (simp only: update_fresh[OF assms(1)])
  have f1: "find_task desc ?dba = Some (uuid, ?new)"
    using assms(2,3) by (rule find_task_last) simp
  have c2: "complete_task now2 desc ?dba = (''Marked as completed: '' @ desc, ?dbb)"
    unfolding complete_task_def
    by (simp only: f1 option.case prod.case update_last[OF assms(1)] task.simps)
  have m: "map_of ?dbb uuid = Some ?fin" 
    using assms(1) by (simp add: map_add_def map_of_eq_None_iff[THEN iffD2])
  have mem: "?fin \<in> set (listed_tasks None ?dbb)"
  proof -
    have "set (listed_tasks None ?dbb) = set (map snd ?dbb)"
      by (simp add: listed_tasks_None sort_tasks_def)
    then show ?thesis by simp
  qed
  have line: "task_line ?fin = icon_completed @ '' '' @ desc @ '' ('' @ prio @ '' priority)''"
    by (simp add: task_line_def)
  have l: "list_tasks None ?dbb =
              ''You have '' @ str_nat (length ?dbb) @ '' tasks:'' @ [CHR 0x0A]
                @ join [CHR 0x0A] (map task_line (listed_tasks None ?dbb))"
    by (rule list_tasks_nonempty) simp
  have f2: "find_task desc ?dbb = Some (uuid, ?fin)"
    using assms(2,3) by (rule find_task_last) simp
  have d: "delete_task desc ?dbb = (Inr (''Deleted task: '' @ desc), db)"
    using f2 by (simp add: delete_task_def delete_last[OF assms(1)] image_Un)
  have nl: "\<forall>t' \<in> set (listed_tasks None db). description t' \<noteq> desc"
  proof
    fix t' assume "t' \<in> set (listed_tasks None db)"
    then have "t' \<in> snd ` set db" by (simp add: listed_tasks_None sort_tasks_def)
    with assms(3) have "\<not> contains (lower desc) (lower (description t'))" by (rule bspec)
    then show "description t' \<noteq> desc" using contains_refl[of "lower desc"] by auto
  qed
  have nf: "complete_task now3 desc db = (''Task not found: '' @ desc, db)"
    using find_task_none[OF assms(2,3)] by (rule not_found_responses(1))
  show ?thesis
  proof (intro exI conjI)
    show "create_task uuid now desc prio due db = (''Task created: '' @ desc, ?dba)" by (rule c1)
    show "complete_task now2 desc ?dba = (''Marked as completed: '' @ desc, ?dbb)" by (rule c2)
    show "map_of ?dbb uuid = Some ?fin" by (rule m)
    show "description ?fin = desc" by simp
    show "priority ?fin = prio" by simp
    show "status ?fin = ''completed''" by simp
    show "?fin \<in> set (listed_tasks None ?dbb)" by (rule mem)
    show "task_line ?fin = icon_completed @ '' '' @ desc @ '' ('' @ prio @ '' priority)''" by (rule line)
    show "list_tasks None ?dbb =
              ''You have '' @ str_nat (length ?dbb) @ '' tasks:'' @ [CHR 0x0A]
                @ join [CHR 0x0A] (map task_line (listed_tasks None ?dbb))" by (rule l)
    show "delete_task desc ?dbb = (Inr (''Deleted task: '' @ desc), db)" by (rule d)
    show "uuid \<notin> fst ` set db" by (rule assms(1))
    show "\<forall>t' \<in> set (listed_tasks None db). description t' \<noteq> desc" by (rule nl)
    show "complete_task now3 desc db = (''Task not found: '' @ desc, db)" by (rule nf)
  qed
qed


theorem create_complete_delete_round_trip_witness:
  "delete_task ''Buy Milk''
     (snd (complete_task 3 ''Buy Milk''
        (snd (create_task ''id2'' 2 ''Buy Milk'' ''high'' None
           (run_calls [CreateTask ''id1'' 1 ''call bob'' ''low'' None] [])))))
   = (Inr ''Deleted task: Buy Milk'', run_calls [CreateTask ''id1'' 1 ''call bob'' ''low'' None] [])
   \<and> complete_task 4 ''Buy Milk'' (run_calls [CreateTask ''id1'' 1 ''call bob'' ''low'' None] [])
       = (''Task not found: Buy Milk'', run_calls [CreateTask ''id1'' 1 ''call bob'' ''low'' None] [])"
proof -
  let ?db = "run_calls [CreateTask ''id1'' 1 ''call bob'' ''low'' None] []"
  have h1: "''id2'' \<notin> fst ` set ?db" by code_simp
  have h2: "''Buy Milk'' \<notin> fst ` set ?db" by code_simp
  have h3: "\<forall>t \<in> snd ` set ?db. \<not> contains (lower ''Buy Milk'') (lower (description t))"
    by code_simp
  from create_complete_delete_round_trip[OF h1 h2 h3, of 2 "''high''" None 3 4]
  obtain db1 db2 where
    a: "create_task ''id2'' 2 ''Buy Milk'' ''high'' None ?db = (''Task created: '' @ ''Buy Milk'', db1)"
    and b: "complete_task 3 ''Buy Milk'' db1 = (''Marked as completed: '' @ ''Buy Milk'', db2)"
    and c: "delete_task ''Buy Milk'' db2 = (Inr (''Deleted task: '' @ ''Buy Milk''), ?db)"
    and d: "complete_task 4 ''Buy Milk'' ?db = (''Task not found: '' @ ''Buy Milk'', ?db)"
    by blast
  from a have "snd (create_task ''id2'' 2 ''Buy Milk'' ''high'' None ?db) = db1" by (simp only: snd_conv)
  moreover from b have "snd (complete_task 3 ''Buy Milk'' db1) = db2" by (simp only: snd_conv)
  ultimately have "delete_task ''Buy Milk''
     (snd (complete_task 3 ''Buy Milk'' (snd (create_task ''id2'' 2 ''Buy Milk'' ''high'' None ?db))))
     = (Inr (''Deleted task: '' @ ''Buy Milk''), ?db)" using c by (simp only:)
  with d show ?thesis by (simp only: append.simps) 
qed

text \<open>
  C8 as stated, for every store, fails: when an older task's description contains the
  new one, the lookup by description finds the older task first, \<open>complete_task\<close>
  completes that one, and the task just created is still listed as pending.
\<close>

theorem round_trip_other_task_counterexample:
  "fst (complete_task 3 ''buy milk''
          (run_calls [CreateTask ''id1'' 1 ''buy milk and eggs'' ''medium'' None,
                      CreateTask ''id2'' 2 ''buy milk'' ''high'' None] []))
     = ''Marked as completed: buy milk and eggs''
   \<and> list_tasks None
         (run_calls [CreateTask ''id1'' 1 ''buy milk and eggs'' ''medium'' None,
                     CreateTask ''id2'' 2 ''buy milk'' ''high'' None,
                     CompleteTask 3 ''buy milk''] [])
     = ''You have 2 tasks:'' @ [CHR 0x0A]
         @ icon_pending @ '' buy milk (high priority)'' @ [CHR 0x0A]
         @ icon_completed @ '' buy milk and eggs (medium priority)''"
  by code_simp

section \<open>ClaraTaskProcessor: the entry point\<close>

lemma on_match_entity:
  "on_match tx operation p m = Inr cmd \<Longrightarrow> entity cmd = ''task'' \<and> action cmd = operation"
  by (auto simp: on_match_def Let_def split: option.splits if_splits)

lemma on_match_raises: "on_match tx operation p m = Inl e \<Longrightarrow> is_Exception e"
  by (auto simp: on_match_def Let_def split: option.splits if_splits)

lemma parse_command_entity:
  assumes "parse_command text0 = Inr cmd" and "action cmd \<noteq> ''unknown''"
  shows "entity cmd = ''task''"
proof -
  from parse_command_known[OF assms] obtain operation p m where
    "on_match (strip (lower text0)) operation p m = Inr cmd" by blast
  then show ?thesis by (simp add: on_match_entity)
qed

lemma parse_command_raises:
  assumes "parse_command text0 = Inl e"
  shows "is_Exception e"
proof (cases "try_operations (strip (lower text0)) task_patterns")
  case None
  with assms show ?thesis by (simp add: parse_command_def Let_def)
next
  case (Some r)
  with assms have "r = Inl e" by (simp add: parse_command_def Let_def)
  with try_operations_Some[OF Some] obtain operation p m where
    "on_match (strip (lower text0)) operation p m = Inl e" by metis
  then show ?thesis by (rule on_match_raises)
qed

lemma try_process_dispatch:
  assumes "parse_command text0 = Inr cmd" and "action cmd \<noteq> ''unknown''"
  shows "try_process tm text0 st = process_task_command tm cmd st"
  using assms parse_command_entity[OF assms] by (simp add: try_process_def)

lemma process_task_command_raises:
  assumes "raises_only_Exception tm" and "process_task_command tm cmd st = (Inl e, st')"
  shows "is_Exception e"
proof -
  from assms(2) consider
      d p where "tm_create_task tm d p st = (Inl e, st')"
    | d where "tm_complete_task tm d st = (Inl e, st')"
    | "tm_list_tasks tm st = (Inl e, st')"
    | d where "tm_delete_task tm d st = (Inl e, st')"
    unfolding process_task_command_def Let_def by (auto split: if_splits)
  then show ?thesis
  proof cases
    case 1 with assms(1) show ?thesis unfolding raises_only_Exception_def by blast
  next
    case 2 with assms(1) show ?thesis unfolding raises_only_Exception_def by blast
  next
    case 3 with assms(1) show ?thesis unfolding raises_only_Exception_def by blast
  next
    case 4 with assms(1) show ?thesis unfolding raises_only_Exception_def by blast
  qed
qed

lemma try_process_raises:
  assumes "raises_only_Exception tm" and "try_process tm text0 st = (Inl e, st')"
  shows "is_Exception e"
proof (cases "parse_command text0")
  case (Inl e')
  with assms(2) have "e' = e" by (simp add: try_process_def)
  with Inl show ?thesis by (simp add: parse_command_raises)
next
  case (Inr cmd)
  show ?thesis
  proof (cases "action cmd = ''unknown''")
    case True
    with Inr assms(2) show ?thesis by (simp add: try_process_def)
  next
    case False
    with Inr assms(2) have "process_task_command tm cmd st = (Inl e, st')"
      by (simp add: try_process_dispatch)
    with assms(1) show ?thesis by (rule process_task_command_raises)
  qed
qed

lemma in_memory_raises_only_Exception: "raises_only_Exception (in_memory uuid now)"
  unfolding raises_only_Exception_def in_memory_def delete_task_def
  by (auto split: prod.splits option.splits if_splits)

text \<open>
  C9, as the code has it.  The handler of \<open>process_voice_command\<close> is
  \<^verbatim>\<open>except Exception\<close>.  An exception of class \<^verbatim>\<open>Exception\<close> raised by a method
  of the task store while a recognised command is dispatched is turned into the
  apology followed by the text of the exception; an exception outside that class
  leaves \<open>process_voice_command\<close>.  With a task store that raises nothing outside
  class \<^verbatim>\<open>Exception\<close>, the store of the source among them,
  \<open>process_voice_command\<close> returns a response for every input text.
\<close>

theorem process_voice_command_catches:
  "(\<forall>cmd e st'. parse_command text0 = Inr cmd \<and> action cmd \<noteq> ''unknown''
          \<and> process_task_command tm cmd st = (Inl e, st') \<and> is_Exception e
        \<longrightarrow> process_voice_command tm text0 st =
              (Inr (''Sorry, I encountered an error processing your request: '' @ exn_str e), st'))
   \<and> (\<forall>cmd e st'. parse_command text0 = Inr cmd \<and> action cmd \<noteq> ''unknown''
          \<and> process_task_command tm cmd st = (Inl e, st') \<and> \<not> is_Exception e
        \<longrightarrow> process_voice_command tm text0 st = (Inl e, st'))
   \<and> (raises_only_Exception tm
        \<longrightarrow> (\<exists>response st'. process_voice_command tm text0 st = (Inr response, st')))
   \<and> raises_only_Exception (in_memory uuid now)"
proof (intro conjI allI impI)
  fix cmd e st'
  assume a: "parse_command text0 = Inr cmd \<and> action cmd \<noteq> ''unknown''
          \<and> process_task_command tm cmd st = (Inl e, st') \<and> is_Exception e"
  then have "try_process tm text0 st = (Inl e, st')" by (simp add: try_process_dispatch)
  with a show "process_voice_command tm text0 st =
      (Inr (''Sorry, I encountered an error processing your request: '' @ exn_str e), st')"
    by (simp add: process_voice_command_def apology_def)
next
  fix cmd e st'
  assume a: "parse_command text0 = Inr cmd \<and> action cmd \<noteq> ''unknown''
          \<and> process_task_command tm cmd st = (Inl e, st') \<and> \<not> is_Exception e"
  then have "try_process tm text0 st = (Inl e, st')" by (simp add: try_process_dispatch)
  with a show "process_voice_command tm text0 st = (Inl e, st')"
    by (simp add: process_voice_command_def)
next
  assume r: "raises_only_Exception tm"
  obtain x st' where t: "try_process tm text0 st = (x, st')" by (cases "try_process tm text0 st")
  show "\<exists>response st'. process_voice_command tm text0 st = (Inr response, st')"
  proof (cases x)
    case (Inl e)
    with t r have "is_Exception e" by (simp add: try_process_raises)
    with t Inl have "process_voice_command tm text0 st = (Inr (apology e), st')"
      by (simp add: process_voice_command_def)
    then show ?thesis by blast
  next
    case (Inr response)
    with t have "process_voice_command tm text0 st = (Inr response, st')"
      by (simp add: process_voice_command_def)
    then show ?thesis by blast
  qed
next
  show "raises_only_Exception (in_memory uuid now)" by (rule in_memory_raises_only_Exception)
qed

theorem process_voice_command_catches_witness:
  "process_voice_command (raising_store (StoreError ''database is locked'')) ''Buy milk'' 0
   = (Inr ''Sorry, I encountered an error processing your request: database is locked'', 0)
   \<and> (\<exists>response st'.
         process_voice_command (in_memory ''id1'' 1) ''Buy milk'' [] = (Inr response, st'))"
proof -
  let ?tm = "raising_store (StoreError ''database is locked'')"
  let ?cmd = "projr (parse_command ''Buy milk'')"
  have "\<not> isl (parse_command ''Buy milk'')" by code_simp
  then have p: "parse_command ''Buy milk'' = Inr ?cmd" by simp
  have a: "action ?cmd \<noteq> ''unknown''" by code_simp
  have d: "process_task_command ?tm ?cmd 0 = (Inl (StoreError ''database is locked''), 0)"
    by code_simp
  have e: "is_Exception (StoreError ''database is locked'')" by simp
  from process_voice_command_catches[of "''Buy milk''" ?tm 0] p a d e
  have "process_voice_command ?tm ''Buy milk'' 0 =
     (Inr (''Sorry, I encountered an error processing your request: ''
        @ exn_str (StoreError ''database is locked'')), 0)" by blast
  then have first: "process_voice_command ?tm ''Buy milk'' 0 =
     (Inr ''Sorry, I encountered an error processing your request: database is locked'', 0)"
    by simp
  from process_voice_command_catches[of "''Buy milk''" "in_memory ''id1'' 1" "[]" "''id1''" 1]
  have "\<exists>response st'.
         process_voice_command (in_memory ''id1'' 1) ''Buy milk'' [] = (Inr response, st')"
    by blast
  with first show ?thesis by blast
qed

text \<open>
  C9 as stated, for any exception of the task store, fails: when the store's method
  raises \<open>CancelledError\<close>, which is not of class \<^verbatim>\<open>Exception\<close>, the handler does
  not catch it and \<open>process_voice_command\<close> raises it to its caller.
\<close>

theorem cancelled_error_propagates_counterexample:
  "process_voice_command (raising_store CancelledError) ''Buy milk'' 0 = (Inl CancelledError, 0)"
  by code_simp

section \<open>ClaraTaskProcessor: dispatch of a task command\<close>


lemma list_dispatch_needs_description:
  assumes "parameters cmd ''operation'' = Some ''list''"
    and "parameters cmd ''description'' = Some d" and "d \<noteq> []"
  shows "process_task_command tm cmd st = tm_list_tasks tm st"
  using assms by (simp add: process_task_command_def Let_def)




section \<open>ClaraTaskProcessor: commands that are not understood\<close>

lemma handle_unknown_command_cases:
  "handle_unknown_command tx \<in> {guidance_tasks, guidance_files, guidance_web, guidance_generic}"
  by (simp add: handle_unknown_command_def)

lemma contains_set: "contains w s \<Longrightarrow> set w \<subseteq> set s"
  unfolding contains_iff by auto

lemma strip_empty_all_space:
  assumes "strip s = []" shows "\<forall>c \<in> set s. isspace c"
proof -
  let ?d = "dropWhile isspace s"
  from assms have "dropWhile isspace (rev ?d) = []" by (simp add: strip_def)
  then have "\<forall>x \<in> set (rev ?d). isspace x" by (simp only: dropWhile_eq_Nil_conv)
  then have a: "\<forall>x \<in> set ?d. isspace x" by simp
  have "?d = []"
  proof (rule ccontr)
    assume ne: "?d \<noteq> []"
    then have "\<not> isspace (hd ?d)" by (rule hd_dropWhile)
    moreover from ne have "hd ?d \<in> set ?d" by (rule hd_in_set)
    ultimately show False using a by blast
  qed
  then show ?thesis by (simp only: dropWhile_eq_Nil_conv)
qed

lemma no_word_in_blank:
  assumes "\<forall>c \<in> set s. isspace c" and "w \<noteq> []" and "\<not> isspace (hd w)"
  shows "\<not> contains w s"
proof
  assume "contains w s"
  then have "set w \<subseteq> set s" by (rule contains_set)
  moreover from assms(2) have "hd w \<in> set w" by (rule hd_in_set)
  ultimately have "hd w \<in> set s" by blast
  with assms(1,3) show False by blast
qed

text \<open>
  Only a blank utterance reaches \<open>handle_unknown_command\<close>, and it always gets the
  generic guidance: the other three strings are never returned by the entry point.
\<close>

lemma blank_text_unknown:
  assumes "strip (lower text0) = []"
  shows "process_voice_command tm text0 st = (Inr guidance_generic, st)"
proof -
  from assms have b: "\<forall>c \<in> set (lower text0). isspace c" by (rule strip_empty_all_space)
  have n: "\<not> contains w (lower text0)" if "w \<noteq> []" "\<not> isspace (hd w)" for w
    using b that by (rule no_word_in_blank)
  have h: "handle_unknown_command text0 = guidance_generic"
    unfolding handle_unknown_command_def any_word_in_def
    by (simp add: n isspace_def)
  from assms have "parse_command text0 =
      Inr \<lparr> action = ''unknown'', entity = ''unknown'',
            parameters = [''raw_text'' \<mapsto> []], confidence = 1, raw_text = [] \<rparr>"
    by (simp add: parse_command_def Let_def nothing_matches_empty)
  then have "try_process tm text0 st = (Inr (handle_unknown_command text0), st)"
    by (simp add: try_process_def)
  with h show ?thesis by (simp add: process_voice_command_def)
qed

text \<open>
  C1.  The claim has an utterance without task vocabulary parsed as \<open>unknown\<close> and
  answered with a guidance string chosen by its keywords.  In the code
  \<open>open the browser\<close> is parsed as \<open>create\<close> and a task of that name is created,
  while \<open>handle_unknown_command\<close>, had it been called, would have returned the
  guidance on files.
\<close>

theorem unknown_branch_unreachable:
  "\<not> isl (parse_command ''open the browser'')
   \<and> action (projr (parse_command ''open the browser'')) = ''create''
   \<and> process_voice_command (in_memory ''id1'' 1) ''open the browser'' []
       = (Inr ''Task created: open the browser'',
          run_calls [CreateTask ''id1'' 1 ''open the browser'' ''medium'' None] [])
   \<and> handle_unknown_command ''open the browser'' = guidance_files"
  by code_simp

end
